theory Spec2Isabelle
  imports Complex_Main "HOL-Library.AList"
begin

section \<open>Python values used by the planner\<close>

text \<open>
  The planner (\<^verbatim>\<open>src/testy.py\<close>) computes with three kinds of Python numbers: the
  unbounded integers \<^verbatim>\<open>0\<close> and \<^verbatim>\<open>1\<close> and their sums, the IEEE double
  \<^verbatim>\<open>math.sqrt(2)\<close> and the sums it takes part in, and \<^verbatim>\<open>np.inf\<close>.
  Every finite double that arises is \<open>0\<close> or at least \<open>1\<close>, hence an integer multiple
  of \<open>2\<^sup>-\<^sup>5\<^sup>2\<close>: \<open>PFloat m\<close> stands for the double \<open>m / 2\<^sup>5\<^sup>2\<close>. A sum of
  doubles is the exact sum rounded to 53 significant bits, ties to even (\<open>round53\<close>).
  The exponent range is not modelled: a sum would have to reach \<open>2\<^sup>1\<^sup>0\<^sup>2\<^sup>4\<close>, and a
  Python list holds fewer than \<open>2\<^sup>6\<^sup>3\<close> items.
\<close>

datatype pynum = PInt int | PFloat int | PInf

fun bitlen :: "nat \<Rightarrow> nat" where
  "bitlen n = (if n = 0 then 0 else Suc (bitlen (n div 2)))"

declare bitlen.simps [simp del]

definition round53 :: "int \<Rightarrow> int" where
  "round53 s =
     (let n = bitlen (nat s) in
      if n \<le> 53 then s
      else
        let sh = n - 53;
            q = s div 2 ^ sh;
            r = s mod 2 ^ sh;
            half = 2 ^ (sh - 1)
        in (if half < r \<or> (r = half \<and> odd q) then q + 1 else q) * 2 ^ sh)"

definition float_of_int :: "int \<Rightarrow> int" where
  "float_of_int a = round53 (a * 2 ^ 52)"

fun py_add :: "pynum \<Rightarrow> pynum \<Rightarrow> pynum" where
  "py_add (PInt a) (PInt b) = PInt (a + b)"
| "py_add (PInt a) (PFloat y) = PFloat (round53 (float_of_int a + y))"
| "py_add (PFloat x) (PInt b) = PFloat (round53 (x + float_of_int b))"
| "py_add (PFloat x) (PFloat y) = PFloat (round53 (x + y))"
| "py_add PInf _ = PInf"
| "py_add _ PInf = PInf"

text \<open>The value of a number in units of \<open>2\<^sup>-\<^sup>5\<^sup>2\<close>; Python compares an int with a float exactly.\<close>

fun units :: "pynum \<Rightarrow> int option" where
  "units (PInt a) = Some (a * 2 ^ 52)"
| "units (PFloat m) = Some m"
| "units PInf = None"

definition py_gt :: "pynum \<Rightarrow> pynum \<Rightarrow> bool" where
  "py_gt a b =
     (case units b of
        None \<Rightarrow> False
      | Some y \<Rightarrow> (case units a of None \<Rightarrow> True | Some x \<Rightarrow> y < x))"

definition py_eq :: "pynum \<Rightarrow> pynum \<Rightarrow> bool" where
  "py_eq a b = (units a = units b)"

text \<open>\<^verbatim>\<open>math.sqrt(2)\<close> is the double \<^verbatim>\<open>0x1.6a09e667f3bcdp+0\<close>.\<close>

definition sqrt2 :: pynum where
  "sqrt2 = PFloat 6369051672525773"

datatype error = ValueError string | IndexError | KeyError

text \<open>A \<^verbatim>\<open>for\<close> loop over a list whose body may raise: the first error leaves the loop.\<close>

fun fold_err :: "('a \<Rightarrow> 's \<Rightarrow> error + 's) \<Rightarrow> 'a list \<Rightarrow> 's \<Rightarrow> error + 's" where
  "fold_err f [] s = Inr s"
| "fold_err f (x # xs) s = (case f x s of Inl e \<Rightarrow> Inl e | Inr s' \<Rightarrow> fold_err f xs s')"

text \<open>A list comprehension whose element expression may raise.\<close>

fun map_err :: "('a \<Rightarrow> error + 'b) \<Rightarrow> 'a list \<Rightarrow> error + 'b list" where
  "map_err f [] = Inr []"
| "map_err f (x # xs) =
     (case f x of
        Inl e \<Rightarrow> Inl e
      | Inr y \<Rightarrow> (case map_err f xs of Inl e \<Rightarrow> Inl e | Inr ys \<Rightarrow> Inr (y # ys)))"

text \<open>\<^verbatim>\<open>xs[i]\<close> for a Python int \<open>i\<close>: a negative index counts from the end.\<close>

definition py_index :: "'a list \<Rightarrow> int \<Rightarrow> error + 'a" where
  "py_index xs i =
     (if 0 \<le> i \<and> i < int (length xs) then Inr (xs ! nat i)
      else if i < 0 \<and> - int (length xs) \<le> i then Inr (xs ! nat (int (length xs) + i))
      else Inl IndexError)"

text \<open>\<^verbatim>\<open>xs.index(x)\<close>: the first position of \<open>x\<close>.\<close>

fun list_index :: "'a list \<Rightarrow> 'a \<Rightarrow> nat option" where
  "list_index [] x = None"
| "list_index (y # ys) x = (if y = x then Some 0 else map_option Suc (list_index ys x))"

section \<open>The planner: \<^verbatim>\<open>RoadFinder\<close>\<close>

type_synonym cell = "int \<times> int"
type_synonym grid = "int list list"
type_synonym edge_weights = "nat \<times> nat \<rightharpoonup> pynum"

record road_finder =
  lidar_map :: grid
  car_length :: rat
  car_width :: rat
  starting_point :: cell
  ending_point :: cell
  path :: "cell list"

text \<open>
  \<^verbatim>\<open>__init__\<close>: the argument is any object; \<open>None\<close> stands for one without a
  \<^verbatim>\<open>map\<close> attribute.
\<close>

definition RoadFinder_init ::
  "grid option \<Rightarrow> cell \<Rightarrow> cell \<Rightarrow> rat \<Rightarrow> rat \<Rightarrow> error + road_finder" where
  "RoadFinder_init map_class start end' len width =
     (case map_class of
        None \<Rightarrow> Inl (ValueError ''LidarMap class must have a 'map' attribute'')
      | Some m \<Rightarrow>
          Inr \<lparr>lidar_map = m, car_length = len, car_width = width,
               starting_point = start, ending_point = end', path = []\<rparr>)"

text \<open>
  \<^verbatim>\<open>__is_path_clear\<close>. The read \<^verbatim>\<open>self.lidar_map[nx][ny]\<close> raises on a row
  shorter than row 0.
\<close>

definition is_path_clear :: "grid \<Rightarrow> cell \<Rightarrow> int \<Rightarrow> int \<Rightarrow> error + bool" where
  "is_path_clear m start dx dy =
     (case start of (x, y) \<Rightarrow>
        let nx = x + dx; ny = y + dy in
        if \<not> (0 \<le> nx \<and> nx < int (length m) \<and> 0 \<le> ny \<and> ny < int (length (m ! 0)))
        then Inr False
        else (case py_index (m ! nat nx) ny of
                Inl e \<Rightarrow> Inl e
              | Inr val \<Rightarrow> Inr (val = 0)))"

definition neighbors :: "(int \<times> int) list" where
  "neighbors = [(-1, 0), (1, 0), (0, -1), (0, 1), (-1, -1), (-1, 1), (1, -1), (1, 1)]"

definition create_keys :: "grid \<Rightarrow> cell list" where
  "create_keys m =
     [(int i, int j). (i, row) \<leftarrow> enumerate 0 m, (j, val) \<leftarrow> enumerate 0 row, val = 0]"

definition create_key_to_index :: "cell list \<Rightarrow> (cell \<rightharpoonup> nat)" where
  "create_key_to_index keys = fold (\<lambda>(idx, key) d. d(key \<mapsto> idx)) (enumerate 0 keys) Map.empty"

text \<open>
  The body of the inner loop of \<^verbatim>\<open>__create_graph\<close>. The dictionary \<open>graph\<close> has the
  keys \<open>0, \<dots>, len(keys) - 1\<close> from its creation on, so it is the list of its values.
\<close>

definition add_neighbor ::
  "grid \<Rightarrow> (cell \<rightharpoonup> nat) \<Rightarrow> nat \<Rightarrow> int \<Rightarrow> int \<Rightarrow> int \<times> int \<Rightarrow>
   nat list list \<times> edge_weights \<Rightarrow> error + nat list list \<times> edge_weights" where
  "add_neighbor m key_to_index idx x y d st =
     (case d of (dx, dy) \<Rightarrow> case st of (graph, ew) \<Rightarrow>
        let nx = x + dx; ny = y + dy in
        case key_to_index (nx, ny) of
          None \<Rightarrow> Inr (graph, ew)
        | Some neighbor_index \<Rightarrow>
            (case is_path_clear m (x, y) dx dy of
               Inl e \<Rightarrow> Inl e
             | Inr clear \<Rightarrow>
                 if \<not> clear then Inr (graph, ew)
                 else if \<not> idx < length graph then Inl KeyError
                 else Inr (graph[idx := graph ! idx @ [neighbor_index]],
                           ew((idx, neighbor_index) \<mapsto>
                              (if abs dx + abs dy = 1 then PInt 1 else sqrt2)))))"

definition create_graph :: "grid \<Rightarrow> error + nat list list \<times> cell list \<times> edge_weights" where
  "create_graph m =
     (let keys = create_keys m in
      if keys = [] then Inl (ValueError ''No valid path in the lidar map'')
      else
        let key_to_index = create_key_to_index keys;
            graph = map (\<lambda>i. []) [0..<length keys]
        in case fold_err
                  (\<lambda>(idx, (x, y)). fold_err (add_neighbor m key_to_index idx x y) neighbors)
                  (enumerate 0 keys) (graph, Map.empty) of
             Inl e \<Rightarrow> Inl e
           | Inr (graph', ew) \<Rightarrow> Inr (graph', keys, ew))"

text \<open>One execution of the body of the innermost loop of \<^verbatim>\<open>__relax_edges\<close>.\<close>

definition relax_edge ::
  "edge_weights \<Rightarrow> nat \<Rightarrow> nat \<Rightarrow> pynum list \<times> int list \<Rightarrow> error + pynum list \<times> int list" where
  "relax_edge ew u v st =
     (case st of (distances, predecessor) \<Rightarrow>
        case ew (u, v) of
          None \<Rightarrow> Inl KeyError
        | Some weight \<Rightarrow>
            if \<not> (v < length distances \<and> u < length distances) then Inl IndexError
            else if py_gt (distances ! v) (py_add (distances ! u) weight) then
              (if \<not> v < length predecessor then Inl IndexError
               else Inr (distances[v := py_add (distances ! u) weight],
                         predecessor[v := int u]))
            else Inr (distances, predecessor))"

definition relax_edges ::
  "nat list list \<Rightarrow> edge_weights \<Rightarrow> pynum list \<Rightarrow> int list \<Rightarrow>
   error + pynum list \<times> int list" where
  "relax_edges graph ew distances predecessor =
     (let num_vertices = length graph in
      fold_err
        (\<lambda>_. fold_err (\<lambda>u. fold_err (relax_edge ew u) (graph ! u)) [0..<num_vertices])
        [0..<num_vertices - 1] (distances, predecessor))"

text \<open>
  \<^verbatim>\<open>__reconstruct_path\<close>. The \<^verbatim>\<open>while\<close> loop has no bound of its own, so not
  returning is the value \<open>None\<close>. Leaving the loop appends the start and reverses.
\<close>

partial_function (option) reconstruct_loop ::
  "int list \<Rightarrow> int \<Rightarrow> int \<Rightarrow> int list \<Rightarrow> (error + int list) option" where
  "reconstruct_loop predecessor start_index current path_indices =
     (if current \<noteq> start_index then
        (case py_index predecessor current of
           Inl e \<Rightarrow> Some (Inl e)
         | Inr c \<Rightarrow>
             if c = - 1 then Some (Inr [])
             else reconstruct_loop predecessor start_index c (path_indices @ [current]))
      else Some (Inr (rev (path_indices @ [start_index]))))"

declare reconstruct_loop.simps [code]

definition reconstruct_path :: "int list \<Rightarrow> nat \<Rightarrow> nat \<Rightarrow> (error + int list) option" where
  "reconstruct_path predecessor start_index end_index =
     reconstruct_loop predecessor (int start_index) (int end_index) []"

text \<open>
  \<^verbatim>\<open>__bellman_ford\<close>. The result is the returned list and the object after the call;
  an error leaves the object as it was. The \<^verbatim>\<open>print\<close> calls are left out.
\<close>

definition bellman_ford ::
  "road_finder \<Rightarrow> nat list list \<Rightarrow> cell list \<Rightarrow> edge_weights \<Rightarrow>
   (error + cell list \<times> road_finder) option" where
  "bellman_ford self graph keys ew =
     (if starting_point self \<notin> set keys \<or> ending_point self \<notin> set keys
      then Some (Inl (ValueError ''Starting or ending point is not in the lidar map''))
      else
        case (list_index keys (starting_point self), list_index keys (ending_point self)) of
          (Some start_index, Some end_index) \<Rightarrow>
            let num_vertices = length graph;
                distances = replicate num_vertices PInf;
                predecessor = replicate num_vertices (- 1)
            in if \<not> start_index < num_vertices then Some (Inl IndexError)
               else
                 (case relax_edges graph ew (distances[start_index := PInt 0]) predecessor of
                    Inl e \<Rightarrow> Some (Inl e)
                  | Inr (distances', predecessor') \<Rightarrow>
                      if \<not> end_index < num_vertices then Some (Inl IndexError)
                      else if py_eq (distances' ! end_index) PInf then Some (Inr ([], self))
                      else
                        (case reconstruct_path predecessor' start_index end_index of
                           None \<Rightarrow> None
                         | Some (Inl e) \<Rightarrow> Some (Inl e)
                         | Some (Inr path_indices) \<Rightarrow>
                             if path_indices = [] then Some (Inr ([], self))
                             else
                               (case map_err (py_index keys) path_indices of
                                  Inl e \<Rightarrow> Some (Inl e)
                                | Inr p \<Rightarrow> Some (Inr (p, self\<lparr>path := p\<rparr>)))))
        | _ \<Rightarrow> Some (Inl (ValueError ''is not in list'')))"

definition find_path :: "road_finder \<Rightarrow> (error + cell list \<times> road_finder) option" where
  "find_path self =
     (case create_graph (lidar_map self) of
        Inl e \<Rightarrow> Some (Inl e)
      | Inr (graph, keys, ew) \<Rightarrow> bellman_ford self graph keys ew)"

text \<open>\<^verbatim>\<open>str\<close> of an int and of a pair of ints, and \<^verbatim>\<open>sep.join\<close>.\<close>

definition digit :: "nat \<Rightarrow> char" where
  "digit d = ''0123456789'' ! d"

fun str_nat :: "nat \<Rightarrow> string" where
  "str_nat n = (if n < 10 then [digit n] else str_nat (n div 10) @ [digit (n mod 10)])"

declare str_nat.simps [simp del]

definition str_int :: "int \<Rightarrow> string" where
  "str_int i = (if i < 0 then ''-'' @ str_nat (nat (- i)) else str_nat (nat i))"

definition str_cell :: "cell \<Rightarrow> string" where
  "str_cell c = (case c of (x, y) \<Rightarrow> ''('' @ str_int x @ '', '' @ str_int y @ '')'')"

fun join :: "string \<Rightarrow> string list \<Rightarrow> string" where
  "join sep [] = []"
| "join sep [x] = x"
| "join sep (x # y # ys) = x @ sep @ join sep (y # ys)"

text \<open>\<^verbatim>\<open>__repr__\<close>\<close>

definition repr :: "road_finder \<Rightarrow> string" where
  "repr self = ''['' @ join '' -> '' (map str_cell (path self)) @ '']''"

section \<open>The actuation component: \<^verbatim>\<open>UpdateOutputHandler\<close>\<close>

text \<open>
  The constants of \<^verbatim>\<open>interfaces.msg.CommandArray\<close> are not part of the sources at
  hand; they are the fields of a record the model takes as a parameter. The call
  \<^verbatim>\<open>GPIO.output(channels, values)\<close> is the pair of its arguments, \<^verbatim>\<open>print\<close> the
  printed line. A Python dictionary keeps its keys in insertion order.
\<close>

record command_array =
  GO_FORWARD :: int
  GO_LEFT :: int
  GO_RIGHT :: int
  GO_BACKWARD :: int
  STOP :: int

datatype level = LOW | HIGH

definition pins :: "command_array \<Rightarrow> int list" where
  "pins c = [GO_FORWARD c, GO_LEFT c, GO_RIGHT c, GO_BACKWARD c]"

definition update_output ::
  "command_array \<Rightarrow> int \<Rightarrow> string option \<times> int list \<times> level list" where
  "update_output c command =
     (let pin_states = fold (\<lambda>pin d. AList.update pin LOW d) (pins c) [] in
      if command \<in> set (pins c) then
        (let pin_states' = AList.update command HIGH pin_states
         in (None, map fst pin_states', map snd pin_states'))
      else if command \<noteq> STOP c then
        (Some (''Invalid command: '' @ str_int command), map fst pin_states, map snd pin_states)
      else (None, map fst pin_states, map snd pin_states))"

section \<open>Notions of the specification\<close>

text \<open>A free cell: a position of the grid that holds 0.\<close>

definition is_free :: "grid \<Rightarrow> cell \<Rightarrow> bool" where
  "is_free m c =
     (case c of (x, y) \<Rightarrow>
        0 \<le> x \<and> x < int (length m) \<and> 0 \<le> y \<and> y < int (length (m ! nat x)) \<and>
        m ! nat x ! nat y = 0)"

text \<open>The bounds \<^verbatim>\<open>__is_path_clear\<close> checks: the number of rows, and the length of row 0.\<close>

definition in_bounds :: "grid \<Rightarrow> cell \<Rightarrow> bool" where
  "in_bounds m c =
     (case c of (x, y) \<Rightarrow>
        0 \<le> x \<and> x < int (length m) \<and> 0 \<le> y \<and> y < int (length (m ! 0)))"

definition rectangular :: "grid \<Rightarrow> bool" where
  "rectangular m = list_all (\<lambda>row. length row = length (m ! 0)) m"

definition neighbor8 :: "cell \<Rightarrow> cell \<Rightarrow> bool" where
  "neighbor8 u v = (u \<noteq> v \<and> abs (fst v - fst u) \<le> 1 \<and> abs (snd v - snd u) \<le> 1)"

text \<open>One move between free cells that are 8-neighbours, and any number of such moves.\<close>

definition move :: "grid \<Rightarrow> cell \<Rightarrow> cell \<Rightarrow> bool" where
  "move m u v = (is_free m u \<and> is_free m v \<and> neighbor8 u v)"

definition reachable :: "grid \<Rightarrow> cell \<Rightarrow> cell \<Rightarrow> bool" where
  "reachable m = (move m)\<^sup>*\<^sup>*"

definition row_keys :: "nat \<Rightarrow> int list \<Rightarrow> cell list" where
  "row_keys i row = [(int i, int j). (j, val) \<leftarrow> enumerate 0 row, val = 0]"

lemma create_keys_rows: "create_keys m = concat (map (\<lambda>(i, row). row_keys i row) (enumerate 0 m))"
  by (simp add: create_keys_def row_keys_def)

lemma set_row_keys_gen:
  "set (concat (map (\<lambda>(j, val). if val = 0 then [(int i, int j)] else []) (enumerate n row))) =
   {(int i, int j) | j. n \<le> j \<and> j < n + length row \<and> row ! (j - n) = 0}"
  by (fastforce simp: in_set_enumerate_eq split: if_splits)

lemma distinct_row_keys_gen:
  "distinct (concat (map (\<lambda>(j, val). if val = 0 then [(int i, int j)] else []) (enumerate n row)))"
proof (induction row arbitrary: n)
  case Nil
  then show ?case by simp
next
  case (Cons a row)
  have "(int i, int n) \<notin>
    set (concat (map (\<lambda>(j, val). if val = 0 then [(int i, int j)] else []) (enumerate (Suc n) row)))"
    unfolding set_row_keys_gen by auto
  with Cons[of "Suc n"] show ?case by simp
qed

lemma set_row_keys: "set (row_keys i row) = {(int i, int j) | j. j < length row \<and> row ! j = 0}"
  using set_row_keys_gen[of i 0 row] by (simp add: row_keys_def)

lemma distinct_row_keys: "distinct (row_keys i row)"
  using distinct_row_keys_gen[of i 0 row] by (simp add: row_keys_def)

lemma set_rows_gen:
  "set (concat (map (\<lambda>(i, row). row_keys i row) (enumerate n m))) =
   {(int i, int j) | i j. n \<le> i \<and> i < n + length m \<and> j < length (m ! (i - n)) \<and> m ! (i - n) ! j = 0}"
  by (fastforce simp: set_row_keys in_set_enumerate_eq)

lemma distinct_rows_gen:
  "distinct (concat (map (\<lambda>(i, row). row_keys i row) (enumerate n m)))"
proof (induction m arbitrary: n)
  case Nil
  then show ?case by simp
next
  case (Cons row m)
  have "set (row_keys n row) \<inter> set (concat (map (\<lambda>(i, row). row_keys i row) (enumerate (Suc n) m))) = {}"
    unfolding set_rows_gen by (auto simp: set_row_keys)
  with Cons[of "Suc n"] show ?case
    by (simp add: distinct_row_keys)
qed

lemma distinct_create_keys: "distinct (create_keys m)"
  by (simp add: create_keys_rows distinct_rows_gen)

lemma set_create_keys: "set (create_keys m) = {c. is_free m c}"
proof -
  have "set (create_keys m) =
        {(int i, int j) | i j. i < length m \<and> j < length (m ! i) \<and> m ! i ! j = 0}"
    using set_rows_gen[of 0 m] by (simp add: create_keys_rows)
  also have "\<dots> = {c. is_free m c}"
  proof (rule set_eqI)
    fix c :: cell
    obtain x y where c: "c = (x, y)" by (cases c)
    show "c \<in> {(int i, int j) | i j. i < length m \<and> j < length (m ! i) \<and> m ! i ! j = 0}
          \<longleftrightarrow> c \<in> {c. is_free m c}"
    proof
      assume "c \<in> {(int i, int j) | i j. i < length m \<and> j < length (m ! i) \<and> m ! i ! j = 0}"
      then show "c \<in> {c. is_free m c}" by (auto simp: is_free_def)
    next
      assume "c \<in> {c. is_free m c}"
      then have "0 \<le> x" "x < int (length m)" "0 \<le> y" "y < int (length (m ! nat x))"
        "m ! nat x ! nat y = 0" by (auto simp: is_free_def c)
      then have "c = (int (nat x), int (nat y)) \<and> nat x < length m \<and> nat y < length (m ! nat x)
        \<and> m ! nat x ! nat y = 0" by (auto simp: c)
      then show "c \<in> {(int i, int j) | i j. i < length m \<and> j < length (m ! i) \<and> m ! i ! j = 0}"
        by blast
    qed
  qed
  finally show ?thesis .
qed

lemma key_to_index_gen:
  "distinct keys \<Longrightarrow>
   fold (\<lambda>(idx, key) d. d(key \<mapsto> idx)) (enumerate n keys) d0 =
   (\<lambda>k. case list_index keys k of Some i \<Rightarrow> Some (n + i) | None \<Rightarrow> d0 k)"
proof (induction keys arbitrary: n d0)
  case Nil
  then show ?case by simp
next
  case (Cons key keys)
  have none: "list_index keys key = None" using Cons.prems
    by (induction keys) auto
  let ?f = "\<lambda>(idx, key) d. d(key \<mapsto> idx)"
  have "fold ?f (enumerate n (key # keys)) d0 = fold ?f (enumerate (Suc n) keys) (d0(key \<mapsto> n))"
    by simp
  also have "\<dots> = (\<lambda>k. case list_index keys k of Some i \<Rightarrow> Some (Suc n + i)
                        | None \<Rightarrow> (d0(key \<mapsto> n)) k)"
    using Cons.prems by (intro Cons.IH) simp
  also have "\<dots> = (\<lambda>k. case list_index (key # keys) k of Some i \<Rightarrow> Some (n + i) | None \<Rightarrow> d0 k)"
    by (auto simp: fun_eq_iff none split: option.splits)
  finally show ?case .
qed

lemma list_index_None: "list_index xs x = None \<longleftrightarrow> x \<notin> set xs"
  by (induction xs) auto

lemma list_index_Some: "list_index xs x = Some i \<Longrightarrow> i < length xs \<and> xs ! i = x"
  by (induction xs arbitrary: i) (auto split: if_splits)

lemma list_index_nth: "distinct xs \<Longrightarrow> i < length xs \<Longrightarrow> list_index xs (xs ! i) = Some i"
proof (induction xs arbitrary: i)
  case Nil
  then show ?case by simp
next
  case (Cons a xs)
  then show ?case by (cases i) auto
qed

lemma create_key_to_index_eq:
  "distinct keys \<Longrightarrow> create_key_to_index keys = list_index keys"
  by (auto simp: create_key_to_index_def key_to_index_gen fun_eq_iff split: option.splits)

definition edge_weight :: "int \<Rightarrow> int \<Rightarrow> pynum" where
  "edge_weight dx dy = (if abs dx + abs dy = 1 then PInt 1 else sqrt2)"

definition out_edges :: "grid \<Rightarrow> cell list \<Rightarrow> cell \<Rightarrow> int \<times> int \<Rightarrow> (nat \<times> pynum) list" where
  "out_edges m keys c d =
     (case c of (x, y) \<Rightarrow> case d of (dx, dy) \<Rightarrow>
        if (x + dx, y + dy) \<in> set keys \<and> in_bounds m (x + dx, y + dy)
        then [(the (list_index keys (x + dx, y + dy)), edge_weight dx dy)] else [])"

definition all_out_edges :: "grid \<Rightarrow> cell list \<Rightarrow> cell \<Rightarrow> (nat \<times> pynum) list" where
  "all_out_edges m keys c = concat (map (out_edges m keys c) neighbors)"

fun add_edges :: "nat \<Rightarrow> (nat \<times> pynum) list \<Rightarrow> edge_weights \<Rightarrow> edge_weights" where
  "add_edges idx [] e = e"
| "add_edges idx ((j, w) # l) e = add_edges idx l (e((idx, j) \<mapsto> w))"

lemma add_edges_append: "add_edges idx (l @ l') e = add_edges idx l' (add_edges idx l e)"
proof (induction l arbitrary: e)
  case Nil
  then show ?case by simp
next
  case (Cons a l)
  obtain j w where a: "a = (j, w)" by (cases a)
  show ?case by (simp add: a Cons.IH fun_upd_def)
qed

lemma is_path_clear_free:
  assumes "is_free m (x + dx, y + dy)"
  shows "is_path_clear m (x, y) dx dy = Inr (in_bounds m (x + dx, y + dy))"
  using assms by (auto simp: is_path_clear_def is_free_def in_bounds_def py_index_def Let_def)

lemma add_neighbor_eq:
  assumes "idx < length g"
  shows "add_neighbor m (list_index (create_keys m)) idx x y d (g, ew) =
         Inr (g[idx := g ! idx @ map fst (out_edges m (create_keys m) (x, y) d)],
              add_edges idx (out_edges m (create_keys m) (x, y) d) ew)"
proof -
  obtain dx dy where d: "d = (dx, dy)" by (cases d)
  show ?thesis
  proof (cases "(x + dx, y + dy) \<in> set (create_keys m)")
    case False
    then have "list_index (create_keys m) (x + dx, y + dy) = None"
      by (simp add: list_index_None)
    with False show ?thesis
      by (simp add: add_neighbor_def d out_edges_def)
  next
    case True
    then obtain j where j: "list_index (create_keys m) (x + dx, y + dy) = Some j"
      using list_index_None[of "create_keys m" "(x + dx, y + dy)"] by auto
    from True have "is_free m (x + dx, y + dy)" by (simp add: set_create_keys)
    then have "is_path_clear m (x, y) dx dy = Inr (in_bounds m (x + dx, y + dy))"
      by (rule is_path_clear_free)
    with True j assms show ?thesis
      by (simp add: add_neighbor_def d out_edges_def edge_weight_def)
  qed
qed

lemma inner_loop_eq:
  assumes "idx < length g"
  shows "fold_err (add_neighbor m (list_index (create_keys m)) idx x y) ds (g, ew) =
         Inr (g[idx := g ! idx @ map fst (concat (map (out_edges m (create_keys m) (x, y)) ds))],
              add_edges idx (concat (map (out_edges m (create_keys m) (x, y)) ds)) ew)"
  using assms
proof (induction ds arbitrary: g ew)
  case Nil
  then show ?case by simp
next
  case (Cons d ds)
  then show ?case
    by (simp add: add_neighbor_eq add_edges_append)
qed

lemma fold_upd_lookup:
  "add_edges idx l e (u, v) =
   (if u = idx then (case map_of (rev l) v of Some w \<Rightarrow> Some w | None \<Rightarrow> e (u, v)) else e (u, v))"
proof (induction l arbitrary: e)
  case Nil
  then show ?case by simp
next
  case (Cons a l)
  obtain j w where a: "a = (j, w)" by (cases a)
  show ?case
    by (auto simp: a Cons.IH map_add_def split: option.splits)
qed

definition graph_ok ::
  "grid \<Rightarrow> cell list \<Rightarrow> nat \<Rightarrow> nat list list \<Rightarrow> edge_weights \<Rightarrow> nat list list \<Rightarrow> edge_weights \<Rightarrow> bool" where
  "graph_ok m ks n g ew g' ew' \<longleftrightarrow>
     length g' = length g \<and>
     (\<forall>i. i < n \<or> n + length ks \<le> i \<longrightarrow> g' ! i = g ! i) \<and>
     (\<forall>i < length ks. g' ! (n + i) = g ! (n + i) @ map fst (all_out_edges m (create_keys m) (ks ! i))) \<and>
     (\<forall>u v. ew' (u, v) =
        (if n \<le> u \<and> u < n + length ks
         then (case map_of (rev (all_out_edges m (create_keys m) (ks ! (u - n)))) v of
                 Some w \<Rightarrow> Some w | None \<Rightarrow> ew (u, v))
         else ew (u, v)))"

lemma outer_loop_eq:
  assumes "n + length ks \<le> length g"
  shows "\<exists>g' ew'.
     fold_err (\<lambda>(idx, (x, y)). fold_err (add_neighbor m (list_index (create_keys m)) idx x y) neighbors)
        (enumerate n ks) (g, ew) = Inr (g', ew') \<and> graph_ok m ks n g ew g' ew'"
  using assms
proof (induction ks arbitrary: n g ew)
  case Nil
  then show ?case by (auto simp: graph_ok_def)
next
  case (Cons k ks)
  obtain x y where k: "k = (x, y)" by (cases k)
  let ?oe = "all_out_edges m (create_keys m) (x, y)"
  let ?g1 = "g[n := g ! n @ map fst ?oe]"
  let ?ew1 = "add_edges n ?oe ew"
  from Cons.prems have n: "n < length g" by simp
  have step: "fold_err (add_neighbor m (list_index (create_keys m)) n x y) neighbors (g, ew) = Inr (?g1, ?ew1)"
    using inner_loop_eq[OF n] by (simp add: all_out_edges_def)
  from Cons.prems have "Suc n + length ks \<le> length ?g1" by simp
  from Cons.IH[OF this, of ?ew1] obtain g' ew' where
    run: "fold_err (\<lambda>(idx, (x, y)). fold_err (add_neighbor m (list_index (create_keys m)) idx x y) neighbors)
        (enumerate (Suc n) ks) (?g1, ?ew1) = Inr (g', ew')"
    and ok: "graph_ok m ks (Suc n) ?g1 ?ew1 g' ew'" by blast
  have "graph_ok m (k # ks) n g ew g' ew'"
    unfolding graph_ok_def
  proof (intro conjI allI impI)
    show "length g' = length g" using ok by (simp add: graph_ok_def)
  next
    fix i assume "i < n \<or> n + length (k # ks) \<le> i"
    then have i: "i < Suc n \<or> Suc n + length ks \<le> i" "i \<noteq> n" by auto
    have "\<forall>i. i < Suc n \<or> Suc n + length ks \<le> i \<longrightarrow> g' ! i = ?g1 ! i"
      using ok unfolding graph_ok_def by blast
    with i have "g' ! i = ?g1 ! i" by blast
    with i show "g' ! i = g ! i" by simp
  next
    fix i assume i: "i < length (k # ks)"
    show "g' ! (n + i) = g ! (n + i) @ map fst (all_out_edges m (create_keys m) ((k # ks) ! i))"
    proof (cases i)
      case 0
      have "g' ! n = ?g1 ! n" using ok by (simp add: graph_ok_def)
      then show ?thesis using n 0 by (simp add: k)
    next
      case (Suc i')
      with i have "i' < length ks" by simp
      then have "g' ! (Suc n + i') = ?g1 ! (Suc n + i') @ map fst (all_out_edges m (create_keys m) (ks ! i'))"
        using ok by (simp add: graph_ok_def)
      then show ?thesis using Suc by simp
    qed
  next
    fix u v
    have e: "ew' (u, v) =
        (if Suc n \<le> u \<and> u < Suc n + length ks
         then (case map_of (rev (all_out_edges m (create_keys m) (ks ! (u - Suc n)))) v of
                 Some w \<Rightarrow> Some w | None \<Rightarrow> ?ew1 (u, v))
         else ?ew1 (u, v))"
      using ok by (simp add: graph_ok_def)
    show "ew' (u, v) =
        (if n \<le> u \<and> u < n + length (k # ks)
         then (case map_of (rev (all_out_edges m (create_keys m) ((k # ks) ! (u - n)))) v of
                 Some w \<Rightarrow> Some w | None \<Rightarrow> ew (u, v))
         else ew (u, v))"
    proof (cases "u = n")
      case True
      then show ?thesis unfolding e by (auto simp: fold_upd_lookup k split: option.splits)
    next
      case False
      then have "(k # ks) ! (u - n) = ks ! (u - Suc n)" if "n \<le> u"
        using that by (simp add: nth_Cons')
      with False show ?thesis unfolding e by (auto simp: fold_upd_lookup split: option.splits)
    qed
  qed
  with run step show ?case by (auto simp: k)
qed

lemma create_graph_eq:
  assumes "create_keys m \<noteq> []"
  shows "\<exists>G ew. create_graph m = Inr (G, create_keys m, ew) \<and>
           length G = length (create_keys m) \<and>
           (\<forall>u < length (create_keys m).
              G ! u = map fst (all_out_edges m (create_keys m) (create_keys m ! u))) \<and>
           (\<forall>u v. ew (u, v) =
              (if u < length (create_keys m)
               then map_of (rev (all_out_edges m (create_keys m) (create_keys m ! u))) v else None))"
proof -
  let ?keys = "create_keys m"
  let ?g = "map (\<lambda>i. []) [0..<length ?keys] :: nat list list"
  have "0 + length ?keys \<le> length ?g" by simp
  from outer_loop_eq[OF this, of m Map.empty] obtain g' ew' where
    run: "fold_err (\<lambda>(idx, (x, y)). fold_err (add_neighbor m (list_index ?keys) idx x y) neighbors)
        (enumerate 0 ?keys) (?g, Map.empty) = Inr (g', ew')"
    and ok: "graph_ok m ?keys 0 ?g Map.empty g' ew'" by blast
  have cg: "create_graph m = Inr (g', ?keys, ew')"
    using assms run by (simp add: create_graph_def create_key_to_index_eq distinct_create_keys)
  have "length g' = length ?keys" using ok by (simp add: graph_ok_def)
  moreover have "\<forall>u < length ?keys. g' ! u = map fst (all_out_edges m ?keys (?keys ! u))"
    using ok by (simp add: graph_ok_def)
  moreover have "\<forall>u v. ew' (u, v) =
              (if u < length ?keys then map_of (rev (all_out_edges m ?keys (?keys ! u))) v else None)"
    using ok by (auto simp: graph_ok_def split: option.splits)
  ultimately show ?thesis using cg by blast
qed

lemma create_keys_empty_iff: "create_keys m = [] \<longleftrightarrow> (\<forall>c. \<not> is_free m c)"
proof -
  have "create_keys m = [] \<longleftrightarrow> set (create_keys m) = {}" by simp
  then show ?thesis unfolding set_create_keys by blast
qed

lemma find_path_no_graph:
  "create_graph (lidar_map self) = Inl e \<Longrightarrow> find_path self = Some (Inl e)"
  by (simp add: find_path_def)

lemma find_path_bad_endpoint:
  assumes "create_keys (lidar_map self) \<noteq> []"
    and "starting_point self \<notin> set (create_keys (lidar_map self)) \<or>
         ending_point self \<notin> set (create_keys (lidar_map self))"
  shows "find_path self =
         Some (Inl (ValueError ''Starting or ending point is not in the lidar map''))"
proof -
  from create_graph_eq[OF assms(1)] obtain G ew where
    "create_graph (lidar_map self) = Inr (G, create_keys (lidar_map self), ew)" by blast
  with assms(2) show ?thesis
    by (auto simp: find_path_def bellman_ford_def)
qed

text \<open>
  C8. A grid without a free cell: building the graph raises the error
  \<^verbatim>\<open>ValueError("No valid path in the lidar map")\<close> instead of returning a graph, and so
  does \<^verbatim>\<open>find_path\<close>.
\<close>

theorem create_graph_no_free_cell:
  assumes "\<forall>c. \<not> is_free (lidar_map self) c"
  shows "create_graph (lidar_map self) = Inl (ValueError ''No valid path in the lidar map'') \<and>
         find_path self = Some (Inl (ValueError ''No valid path in the lidar map''))"
proof -
  from assms have "create_keys (lidar_map self) = []"
    by (simp add: create_keys_empty_iff)
  then have "create_graph (lidar_map self) = Inl (ValueError ''No valid path in the lidar map'')"
    by (simp add: create_graph_def)
  then show ?thesis by (simp add: find_path_no_graph)
qed

lemma blocked_grid_keys: "create_keys [[1, 1], [1, 1]] = []"
  by (simp add: create_keys_def enumerate_eq_zip upt_rec_numeral)

theorem create_graph_no_free_cell_witness:
  "(\<forall>c. \<not> is_free (lidar_map \<lparr>lidar_map = [[1, 1], [1, 1]], car_length = 3 / 2, car_width = 1 / 2,
       starting_point = (0, 0), ending_point = (1, 1), path = []\<rparr>) c) \<and>
   create_graph [[1, 1], [1, 1]] = Inl (ValueError ''No valid path in the lidar map'') \<and>
   find_path \<lparr>lidar_map = [[1, 1], [1, 1]], car_length = 3 / 2, car_width = 1 / 2,
       starting_point = (0, 0), ending_point = (1, 1), path = []\<rparr> =
     Some (Inl (ValueError ''No valid path in the lidar map''))"
proof -
  let ?self = "\<lparr>lidar_map = [[1, 1], [1, 1]], car_length = 3 / 2, car_width = 1 / 2,
       starting_point = (0, 0), ending_point = (1, 1), path = []\<rparr>"
  have h: "\<forall>c. \<not> is_free (lidar_map ?self) c"
    using blocked_grid_keys by (simp add: create_keys_empty_iff)
  from create_graph_no_free_cell[OF h] h show ?thesis by simp
qed

text \<open>
  C4, as the code has it. Construction does not look at the endpoints: it succeeds for
  every start and end. An endpoint that is not a free cell of the grid (out of bounds, on a
  blocked cell, not among the vertices) is reported by \<^verbatim>\<open>find_path\<close>: on a grid with at
  least one free cell the call raises
  \<^verbatim>\<open>ValueError("Starting or ending point is not in the lidar map")\<close>.
\<close>

theorem endpoints_checked_by_find_path:
  assumes "is_free m c"
    and "\<not> is_free m start \<or> \<not> is_free m end'"
  shows "RoadFinder_init (Some m) start end' len width =
           Inr \<lparr>lidar_map = m, car_length = len, car_width = width,
                starting_point = start, ending_point = end', path = []\<rparr> \<and>
         find_path \<lparr>lidar_map = m, car_length = len, car_width = width,
                starting_point = start, ending_point = end', path = []\<rparr> =
           Some (Inl (ValueError ''Starting or ending point is not in the lidar map''))"
proof -
  let ?self = "\<lparr>lidar_map = m, car_length = len, car_width = width,
                starting_point = start, ending_point = end', path = []\<rparr>"
  from assms(1) have "create_keys (lidar_map ?self) \<noteq> []"
    unfolding create_keys_empty_iff by (cases c) auto
  moreover from assms(2) have "starting_point ?self \<notin> set (create_keys (lidar_map ?self)) \<or>
         ending_point ?self \<notin> set (create_keys (lidar_map ?self))"
    by (simp add: set_create_keys)
  ultimately have "find_path ?self =
      Some (Inl (ValueError ''Starting or ending point is not in the lidar map''))"
    by (rule find_path_bad_endpoint)
  then show ?thesis by (simp add: RoadFinder_init_def)
qed

lemma is_free_single: "is_free [[0]] (0, 0)" "\<not> is_free [[0]] (5, 5)"
  by (simp_all add: is_free_def)

theorem endpoints_checked_by_find_path_witness:
  "is_free [[0]] (0, 0) \<and> \<not> is_free [[0]] (5, 5) \<and>
   RoadFinder_init (Some [[0]]) (5, 5) (0, 0) (3 / 2) (1 / 2) =
     Inr \<lparr>lidar_map = [[0]], car_length = 3 / 2, car_width = 1 / 2,
          starting_point = (5, 5), ending_point = (0, 0), path = []\<rparr> \<and>
   find_path \<lparr>lidar_map = [[0]], car_length = 3 / 2, car_width = 1 / 2,
          starting_point = (5, 5), ending_point = (0, 0), path = []\<rparr> =
     Some (Inl (ValueError ''Starting or ending point is not in the lidar map''))"
proof -
  have h1: "is_free [[0]] (0, 0)" by (rule is_free_single)
  have h2: "\<not> is_free [[0]] (5, 5) \<or> \<not> is_free [[0]] (0, 0)" by (simp add: is_free_single)
  from endpoints_checked_by_find_path[OF h1 h2, of "3 / 2" "1 / 2"] h1 h2 show ?thesis by simp
qed

text \<open>
  The claim C4 as stated fails: with the start \<open>(5, 5)\<close> outside the 1 x 1 grid,
  construction returns a planner and raises nothing.
\<close>

theorem construction_accepts_bad_start:
  "\<not> is_free [[0]] (5, 5) \<and>
   RoadFinder_init (Some [[0]]) (5, 5) (0, 0) (3 / 2) (1 / 2) =
     Inr \<lparr>lidar_map = [[0]], car_length = 3 / 2, car_width = 1 / 2,
          starting_point = (5, 5), ending_point = (0, 0), path = []\<rparr>"
  by (simp add: RoadFinder_init_def is_free_def)

text \<open>The real number a finite Python number stands for.\<close>

fun pyreal :: "pynum \<Rightarrow> real option" where
  "pyreal (PInt a) = Some (of_int a)"
| "pyreal (PFloat m) = Some (of_int m / 2 ^ 52)"
| "pyreal PInf = None"

lemma neighbors_iff:
  "(dx, dy) \<in> set neighbors \<longleftrightarrow> (dx, dy) \<noteq> (0, 0) \<and> abs dx \<le> 1 \<and> abs dy \<le> 1"
proof -
  have x: "abs dx \<le> 1 \<longleftrightarrow> dx = -1 \<or> dx = 0 \<or> dx = 1" by arith
  have y: "abs dy \<le> 1 \<longleftrightarrow> dy = -1 \<or> dy = 0 \<or> dy = 1" by arith
  have "(dx, dy) \<in> set neighbors \<longleftrightarrow>
        (dx = -1 \<or> dx = 0 \<or> dx = 1) \<and> (dy = -1 \<or> dy = 0 \<or> dy = 1) \<and> \<not> (dx = 0 \<and> dy = 0)"
    unfolding neighbors_def by simp arith
  then show ?thesis unfolding x y by auto
qed

lemma neighbor8_iff: "neighbor8 (x, y) v \<longleftrightarrow> (\<exists>d \<in> set neighbors. v = (x + fst d, y + snd d))"
proof
  assume n: "neighbor8 (x, y) v"
  obtain x' y' where v: "v = (x', y')" by (cases v)
  from n have "(x' - x, y' - y) \<in> set neighbors"
    unfolding neighbors_iff by (auto simp: neighbor8_def v)
  moreover have "v = (x + fst (x' - x, y' - y), y + snd (x' - x, y' - y))" by (simp add: v)
  ultimately show "\<exists>d \<in> set neighbors. v = (x + fst d, y + snd d)" by blast
next
  assume "\<exists>d \<in> set neighbors. v = (x + fst d, y + snd d)"
  then obtain dx dy where "(dx, dy) \<in> set neighbors" "v = (x + dx, y + dy)" by auto
  then show "neighbor8 (x, y) v"
    unfolding neighbors_iff by (auto simp: neighbor8_def)
qed

lemma out_edges_iff:
  "(j, w) \<in> set (out_edges m keys (x, y) d) \<longleftrightarrow>
   (x + fst d, y + snd d) \<in> set keys \<and> in_bounds m (x + fst d, y + snd d) \<and>
        list_index keys (x + fst d, y + snd d) = Some j \<and> w = edge_weight (fst d) (snd d)"
proof -
  obtain dx dy where d: "d = (dx, dy)" by (cases d)
  show ?thesis
  proof (cases "(x + dx, y + dy) \<in> set keys")
    case True
    then obtain k where "list_index keys (x + dx, y + dy) = Some k"
      using list_index_None[of keys "(x + dx, y + dy)"] by (cases "list_index keys (x + dx, y + dy)") auto
    with True show ?thesis by (auto simp: out_edges_def d)
  next
    case False
    then show ?thesis by (simp add: out_edges_def d)
  qed
qed

lemma all_out_edges_iff:
  "(j, w) \<in> set (all_out_edges m keys (x, y)) \<longleftrightarrow>
   (\<exists>d \<in> set neighbors. (x + fst d, y + snd d) \<in> set keys \<and> in_bounds m (x + fst d, y + snd d) \<and>
        list_index keys (x + fst d, y + snd d) = Some j \<and> w = edge_weight (fst d) (snd d))"
  by (simp add: all_out_edges_def out_edges_iff)

lemma graph_edge_cells:
  assumes cg: "create_graph m = Inr (graph, keys, ew)"
  shows "keys = create_keys m" "keys \<noteq> []" "length graph = length keys"
    "\<And>u. u < length keys \<Longrightarrow> graph ! u = map fst (all_out_edges m keys (keys ! u))"
    "\<And>u v. ew (u, v) =
       (if u < length keys then map_of (rev (all_out_edges m keys (keys ! u))) v else None)"
proof -
  have ne: "create_keys m \<noteq> []"
    using cg by (auto simp: create_graph_def Let_def split: if_splits)
  from create_graph_eq[OF ne] cg
  show "keys = create_keys m" "keys \<noteq> []" "length graph = length keys"
    "\<And>u. u < length keys \<Longrightarrow> graph ! u = map fst (all_out_edges m keys (keys ! u))"
    "\<And>u v. ew (u, v) =
       (if u < length keys then map_of (rev (all_out_edges m keys (keys ! u))) v else None)"
    using ne by auto
qed

lemma graph_edge_iff_index:
  assumes cg: "create_graph m = Inr (graph, keys, ew)"
    and i: "i < length keys"
  shows "j \<in> set (graph ! i) \<longleftrightarrow>
    (\<exists>v. neighbor8 (keys ! i) v \<and> is_free m v \<and> in_bounds m v \<and> list_index keys v = Some j)"
proof -
  obtain x y where k: "keys ! i = (x, y)" by (cases "keys ! i")
  have keys: "keys = create_keys m" using cg by (rule graph_edge_cells)
  have "j \<in> set (graph ! i) \<longleftrightarrow> (\<exists>w. (j, w) \<in> set (all_out_edges m keys (x, y)))"
    using graph_edge_cells(4)[OF cg i] by (force simp: k)
  also have "\<dots> \<longleftrightarrow> (\<exists>d \<in> set neighbors. is_free m (x + fst d, y + snd d) \<and>
      in_bounds m (x + fst d, y + snd d) \<and> list_index keys (x + fst d, y + snd d) = Some j)"
    unfolding all_out_edges_iff by (auto simp: keys set_create_keys)
  also have "\<dots> \<longleftrightarrow> (\<exists>v. neighbor8 (x, y) v \<and> is_free m v \<and> in_bounds m v \<and> list_index keys v = Some j)"
    unfolding neighbor8_iff by blast
  finally show ?thesis by (simp add: k)
qed

text \<open>
  C5. In the graph built from a grid, let \<open>u\<close> be a free cell and \<open>v\<close> one of its eight
  neighbours. The edge from the vertex of \<open>u\<close> to a vertex of \<open>v\<close> is in the adjacency list
  exactly when \<open>v\<close> is within the bounds \<^verbatim>\<open>__is_path_clear\<close> checks and is a free cell.
  Nothing else is asked of a diagonal move: the cells beside it play no part.
\<close>

theorem graph_edge_iff:
  assumes "create_graph m = Inr (graph, keys, ew)"
    and "is_free m u"
    and "neighbor8 u v"
  shows "(\<exists>i j. list_index keys u = Some i \<and> list_index keys v = Some j \<and> j \<in> set (graph ! i))
         \<longleftrightarrow> in_bounds m v \<and> is_free m v"
proof -
  have keys: "keys = create_keys m" using assms(1) by (rule graph_edge_cells)
  from assms(2) have "u \<in> set keys" by (simp add: keys set_create_keys)
  then obtain i where i: "list_index keys u = Some i"
    using list_index_None[of keys u] by (cases "list_index keys u") auto
  then have il: "i < length keys" and ki: "keys ! i = u"
    using list_index_Some by fastforce+
  show ?thesis
  proof
    assume "\<exists>i j. list_index keys u = Some i \<and> list_index keys v = Some j \<and> j \<in> set (graph ! i)"
    then obtain j where j: "list_index keys v = Some j" "j \<in> set (graph ! i)"
      using i by auto
    from j(2) obtain v' where v': "is_free m v'" "in_bounds m v'" "list_index keys v' = Some j"
      unfolding graph_edge_iff_index[OF assms(1) il] by blast
    from list_index_Some[OF v'(3)] list_index_Some[OF j(1)] have "v' = v" by simp
    with v' show "in_bounds m v \<and> is_free m v" by simp
  next
    assume r: "in_bounds m v \<and> is_free m v"
    then have "v \<in> set keys" by (simp add: keys set_create_keys)
    then obtain j where j: "list_index keys v = Some j"
      using list_index_None[of keys v] by (cases "list_index keys v") auto
    with r assms(3) have "j \<in> set (graph ! i)"
      unfolding graph_edge_iff_index[OF assms(1) il] ki by blast
    with i j show "\<exists>i j. list_index keys u = Some i \<and> list_index keys v = Some j \<and> j \<in> set (graph ! i)"
      by blast
  qed
qed

lemma corner_grid_keys: "create_keys [[0, 1], [1, 0]] = [(0, 0), (1, 1)]"
  by (simp add: create_keys_def enumerate_eq_zip upt_rec_numeral)

theorem graph_edge_iff_witness:
  "\<exists>graph keys ew.
     create_graph [[0, 1], [1, 0]] = Inr (graph, keys, ew) \<and>
     is_free [[0, 1], [1, 0]] (0, 0) \<and> neighbor8 (0, 0) (1, 1) \<and>
     \<not> is_free [[0, 1], [1, 0]] (0, 1) \<and> \<not> is_free [[0, 1], [1, 0]] (1, 0) \<and>
     in_bounds [[0, 1], [1, 0]] (1, 1) \<and> is_free [[0, 1], [1, 0]] (1, 1) \<and>
     (\<exists>i j. list_index keys (0, 0) = Some i \<and> list_index keys (1, 1) = Some j \<and>
            j \<in> set (graph ! i))"
proof -
  let ?m = "[[0, 1], [1, 0]] :: grid"
  have "create_keys ?m \<noteq> []" by (simp add: corner_grid_keys)
  from create_graph_eq[OF this] obtain graph ew where
    cg: "create_graph ?m = Inr (graph, create_keys ?m, ew)" by blast
  have f: "is_free ?m (0, 0)" "is_free ?m (1, 1)" "\<not> is_free ?m (0, 1)" "\<not> is_free ?m (1, 0)"
    by (simp_all add: is_free_def)
  have n: "neighbor8 (0, 0) (1, 1 :: int)" by (simp add: neighbor8_def)
  have b: "in_bounds ?m (1, 1)" by (simp add: in_bounds_def)
  from graph_edge_iff[OF cg f(1) n] b f(2)
  have "\<exists>i j. list_index (create_keys ?m) (0, 0) = Some i \<and>
      list_index (create_keys ?m) (1, 1) = Some j \<and> j \<in> set (graph ! i)" by simp
  with cg f n b show ?thesis by blast
qed

lemma sqrt2_close: "\<bar>6369051672525773 / 2 ^ 52 - sqrt 2\<bar> < (1 / 10 ^ 9 :: real)"
proof -
  let ?a = "6369051672525773 / 2 ^ 52 :: real"
  let ?e = "1 / 10 ^ 9 :: real"
  have lo: "(?a - ?e)\<^sup>2 < 2" by (simp add: power2_eq_square field_simps)
  have hi: "2 < (?a + ?e)\<^sup>2" by (simp add: power2_eq_square field_simps)
  have "?a - ?e < sqrt 2" using lo by (rule real_less_rsqrt)
  moreover have "sqrt 2 < ?a + ?e" using hi by (intro real_less_lsqrt) simp_all
  ultimately show ?thesis by arith
qed

lemma edge_weight_cases:
  "edge_weight dx dy = (if abs dx + abs dy = 1 then PInt 1 else sqrt2)"
  by (simp add: edge_weight_def)

lemma edge_weight_positive: "py_gt (edge_weight dx dy) (PInt 0)"
  by (simp add: edge_weight_def py_gt_def sqrt2_def)

lemma ew_edge:
  assumes cg: "create_graph m = Inr (graph, keys, ew)" and e: "ew (i, j) = Some w"
  shows "i < length keys \<and> j < length keys \<and> j \<in> set (graph ! i) \<and>
         neighbor8 (keys ! i) (keys ! j) \<and>
         w = edge_weight (fst (keys ! j) - fst (keys ! i)) (snd (keys ! j) - snd (keys ! i))"
proof -
  obtain x y where k: "keys ! i = (x, y)" by (cases "keys ! i")
  from e graph_edge_cells(5)[OF cg, of i j]
  have i: "i < length keys" and mo: "map_of (rev (all_out_edges m keys (x, y))) j = Some w"
    by (auto simp: k split: if_splits)
  from mo have mem: "(j, w) \<in> set (all_out_edges m keys (x, y))"
    by (auto dest: map_of_SomeD)
  then obtain d where d: "d \<in> set neighbors" "list_index keys (x + fst d, y + snd d) = Some j"
    "w = edge_weight (fst d) (snd d)"
    unfolding all_out_edges_iff by blast
  from list_index_Some[OF d(2)] have j: "j < length keys" "keys ! j = (x + fst d, y + snd d)"
    by simp_all
  from d(1) have "neighbor8 (x, y) (keys ! j)"
    unfolding neighbor8_iff j by blast
  moreover have "j \<in> set (graph ! i)"
    using mem graph_edge_cells(4)[OF cg i] by (force simp: k)
  ultimately show ?thesis using i j d(3) by (simp add: k)
qed

text \<open>
  C6. Every entry of the edge-weight table joins two vertices whose cells are 8-neighbours.
  Its weight is the integer 1 when the move is along an axis, and the double
  \<^verbatim>\<open>math.sqrt(2)\<close> otherwise; that double is within \<open>10\<^sup>-\<^sup>9\<close> of the real number
  \<open>\<surd>2\<close>. Every weight is greater than 0.
\<close>

theorem edge_weight_values:
  assumes "create_graph m = Inr (graph, keys, ew)" and "ew (i, j) = Some w"
  shows "neighbor8 (keys ! i) (keys ! j) \<and>
         w = (if abs (fst (keys ! j) - fst (keys ! i)) + abs (snd (keys ! j) - snd (keys ! i)) = 1
              then PInt 1 else sqrt2) \<and>
         pyreal (PInt 1) = Some 1 \<and>
         (\<exists>r. pyreal sqrt2 = Some r \<and> \<bar>r - sqrt 2\<bar> < 1 / 10 ^ 9) \<and>
         py_gt w (PInt 0)"
proof -
  from ew_edge[OF assms] have n: "neighbor8 (keys ! i) (keys ! j)"
    and w: "w = edge_weight (fst (keys ! j) - fst (keys ! i)) (snd (keys ! j) - snd (keys ! i))"
    by simp_all
  have "pyreal sqrt2 = Some (6369051672525773 / 2 ^ 52)"
    unfolding sqrt2_def pyreal.simps by simp
  then have "\<exists>r. pyreal sqrt2 = Some r \<and> \<bar>r - sqrt 2\<bar> < 1 / 10 ^ 9"
    using sqrt2_close by blast
  moreover have "py_gt w (PInt 0)" unfolding w by (rule edge_weight_positive)
  ultimately show ?thesis using n w by (simp add: edge_weight_cases)
qed

lemma small_grid_keys: "create_keys [[0, 0], [1, 0]] = [(0, 0), (0, 1), (1, 1)]"
  by (simp add: create_keys_def enumerate_eq_zip upt_rec_numeral)

theorem edge_weight_values_witness:
  "\<exists>graph keys ew w1 w2.
     create_graph [[0, 0], [1, 0]] = Inr (graph, keys, ew) \<and>
     ew (0, 1) = Some w1 \<and> ew (0, 2) = Some w2 \<and>
     keys ! 0 = (0, 0) \<and> keys ! 1 = (0, 1) \<and> keys ! 2 = (1, 1) \<and>
     w1 = PInt 1 \<and> w2 = sqrt2 \<and> py_gt w1 (PInt 0) \<and> py_gt w2 (PInt 0)"
proof -
  let ?m = "[[0, 0], [1, 0]] :: grid"
  have ne: "create_keys ?m \<noteq> []" by (simp add: small_grid_keys)
  from create_graph_eq[OF ne] obtain graph ew where
    cg: "create_graph ?m = Inr (graph, create_keys ?m, ew)"
    and ew: "\<forall>u v. ew (u, v) =
              (if u < length (create_keys ?m)
               then map_of (rev (all_out_edges ?m (create_keys ?m) (create_keys ?m ! u))) v else None)"
    by blast
  have oe: "all_out_edges ?m (create_keys ?m) (0, 0) = [(1, PInt 1), (2, sqrt2)]"
    by (simp add: all_out_edges_def out_edges_def neighbors_def small_grid_keys in_bounds_def
        edge_weight_def)
  have e1: "ew (0, 1) = Some (PInt 1)" and e2: "ew (0, 2) = Some sqrt2"
    by (simp_all add: ew small_grid_keys oe[unfolded small_grid_keys])
  from edge_weight_values[OF cg e1] edge_weight_values[OF cg e2]
  have "py_gt (PInt 1) (PInt 0)" "py_gt sqrt2 (PInt 0)" by simp_all
  with cg e1 e2 show ?thesis by (simp add: small_grid_keys)
qed

lemma update_keys_member:
  "k \<in> fst ` set al \<Longrightarrow> map fst (AList.update k v al) = map fst al"
  by (induction al) auto

lemma update_high_levels:
  assumes "k \<in> fst ` set al" and "distinct (map fst al)" and "\<forall>p \<in> set al. snd p = LOW"
  shows "map snd (AList.update k HIGH al) = map (\<lambda>pin. if pin = k then HIGH else LOW) (map fst al)"
  using assms
proof (induction al)
  case Nil
  then show ?case by simp
next
  case (Cons p al)
  show ?case
  proof (cases "fst p = k")
    case True
    with Cons.prems have "k \<notin> fst ` set al" by auto
    then have "map snd al = map (\<lambda>pin. if pin = k then HIGH else LOW) (map fst al)"
      using Cons.prems(3) by (induction al) auto
    with True show ?thesis by (cases p) simp
  next
    case False
    with Cons show ?thesis by (cases p) auto
  qed
qed

lemma all_low_levels:
  assumes "k \<notin> fst ` set al" and "\<forall>p \<in> set al. snd p = LOW"
  shows "map snd al = map (\<lambda>pin. if pin = k then HIGH else LOW) (map fst al)"
  using assms by (induction al) auto

lemma update_low:
  "\<forall>p \<in> set al. snd p = LOW \<Longrightarrow> \<forall>p \<in> set (AList.update k LOW al). snd p = LOW"
  by (induction al) auto

lemma pin_states_init:
  assumes "distinct (map fst d)" and "\<forall>p \<in> set d. snd p = LOW"
  shows "distinct (map fst (fold (\<lambda>pin d. AList.update pin LOW d) ps d)) \<and>
         fst ` set (fold (\<lambda>pin d. AList.update pin LOW d) ps d) = fst ` set d \<union> set ps \<and>
         (\<forall>p \<in> set (fold (\<lambda>pin d. AList.update pin LOW d) ps d). snd p = LOW)"
  using assms
proof (induction ps arbitrary: d)
  case Nil
  then show ?case by simp
next
  case (Cons pin ps)
  have 1: "distinct (map fst (AList.update pin LOW d))"
    using Cons.prems(1) by (rule distinct_update)
  have 2: "\<forall>p \<in> set (AList.update pin LOW d). snd p = LOW"
    using Cons.prems(2) by (rule update_low)
  from Cons.IH[OF 1 2] show ?case by (auto simp: dom_update)
qed

lemma count_one_high:
  "distinct chs \<Longrightarrow>
   count_list (map (\<lambda>pin. if pin = k then HIGH else LOW) chs) HIGH = (if k \<in> set chs then 1 else 0)"
  by (induction chs) auto

text \<open>The pins in the order of the dictionary \<^verbatim>\<open>pin_states\<close>.\<close>

definition channels :: "command_array \<Rightarrow> int list" where
  "channels c = map fst (fold (\<lambda>pin d. AList.update pin LOW d) (pins c) [])"

lemma channels_props: "distinct (channels c)" "set (channels c) = set (pins c)"
  using pin_states_init[of "[]" "pins c"] by (simp_all add: channels_def)

lemma update_output_eq:
  "update_output c command =
     (if command \<in> set (pins c) \<or> command = STOP c then None
      else Some (''Invalid command: '' @ str_int command),
      channels c, map (\<lambda>pin. if pin = command then HIGH else LOW) (channels c))"
proof -
  let ?ps = "fold (\<lambda>pin d. AList.update pin LOW d) (pins c) []"
  from pin_states_init[of "[]" "pins c"]
  have d: "distinct (map fst ?ps)" and s: "fst ` set ?ps = set (pins c)"
    and l: "\<forall>p \<in> set ?ps. snd p = LOW" by simp_all
  show ?thesis
  proof (cases "command \<in> set (pins c)")
    case True
    then have m: "command \<in> fst ` set ?ps" using s by simp
    have 1: "map fst (AList.update command HIGH ?ps) = channels c"
      unfolding channels_def using m by (rule update_keys_member)
    have 2: "map snd (AList.update command HIGH ?ps) =
        map (\<lambda>pin. if pin = command then HIGH else LOW) (channels c)"
      unfolding channels_def using m d l by (rule update_high_levels)
    show ?thesis unfolding update_output_def Let_def 1 2 using True by simp
  next
    case False
    then have m: "command \<notin> fst ` set ?ps" using s by simp
    have 2: "map snd ?ps = map (\<lambda>pin. if pin = command then HIGH else LOW) (channels c)"
      unfolding channels_def using m l by (rule all_low_levels)
    show ?thesis unfolding update_output_def Let_def 2 using False by (simp add: channels_def)
  qed
qed

text \<open>
  C9, as the code has it. The call passes every pin once to \<^verbatim>\<open>GPIO.output\<close>, with the
  level HIGH for the pin that equals the command and LOW for every other pin. So a direction
  command (forward, left, right, backward) sets exactly one line high; any command that is
  not a pin, \<^verbatim>\<open>STOP\<close> included, sets no line high. The line \<^verbatim>\<open>Invalid command: ...\<close> is
  printed exactly for a command that is neither a pin nor \<^verbatim>\<open>STOP\<close>.
\<close>

theorem update_output_levels:
  "(case update_output c command of
      (printed, chs, levels) \<Rightarrow>
        distinct chs \<and> set chs = set (pins c) \<and>
        levels = map (\<lambda>pin. if pin = command then HIGH else LOW) chs \<and>
        count_list levels HIGH = (if command \<in> set (pins c) then 1 else 0) \<and>
        printed = (if command \<in> set (pins c) \<or> command = STOP c then None
                   else Some (''Invalid command: '' @ str_int command)))"
  unfolding update_output_eq
  by (simp add: channels_props count_one_high)

text \<open>
  The claim C9 as stated fails for \<^verbatim>\<open>STOP\<close>: with the pins 1, 2, 3, 4 and \<^verbatim>\<open>STOP = 0\<close>
  the stop command sets all four lines low, none high, and prints nothing.
\<close>

theorem stop_sets_no_line_high:
  "update_output \<lparr>GO_FORWARD = 1, GO_LEFT = 2, GO_RIGHT = 3, GO_BACKWARD = 4, STOP = 0\<rparr> 0 =
     (None, [1, 2, 3, 4], [LOW, LOW, LOW, LOW])"
  by (simp add: update_output_def pins_def)

lemma map_err_nonempty: "map_err f xs = Inr ys \<Longrightarrow> xs \<noteq> [] \<Longrightarrow> ys \<noteq> []"
  by (cases xs) (auto split: sum.splits)

lemma bellman_ford_frame:
  assumes "bellman_ford self graph keys ew = Some (Inr (p, self'))"
  shows "self' = (if p = [] then self else self\<lparr>path := p\<rparr>)"
  using assms
  by (auto simp: bellman_ford_def Let_def
      split: if_splits option.splits sum.splits prod.splits dest: map_err_nonempty)

lemma find_path_frame:
  assumes "find_path self = Some (Inr (p, self'))"
  shows "self' = (if p = [] then self else self\<lparr>path := p\<rparr>)"
  using assms
  by (auto simp: find_path_def split: sum.splits prod.splits dest!: bellman_ford_frame)

lemma repr_empty: "path self = [] \<Longrightarrow> repr self = ''[]''"
  by (simp add: repr_def)

text \<open>
  C10. A call of \<^verbatim>\<open>find_path\<close> that returns a list changes the object in one way only:
  a non-empty result is stored in \<^verbatim>\<open>path\<close>. After a call that returned the empty list
  the object is as before, so \<^verbatim>\<open>__repr__\<close> renders the path of before the call; for a
  planner that never found a route (its path is the empty list of \<^verbatim>\<open>__init__\<close>) that is
  the text \<^verbatim>\<open>[]\<close>.
\<close>

theorem find_path_empty_keeps_path:
  assumes "find_path self = Some (Inr (p, self'))"
  shows "self' = (if p = [] then self else self\<lparr>path := p\<rparr>) \<and>
         (p = [] \<longrightarrow> path self' = path self \<and> repr self' = repr self \<and>
            (path self = [] \<longrightarrow> repr self' = ''[]''))"
  using find_path_frame[OF assms] by (auto simp: repr_empty)

lemma init_path_empty:
  "RoadFinder_init (Some m) start end' len width = Inr self \<Longrightarrow> path self = []"
  by (auto simp: RoadFinder_init_def)

lemmas planner_eval =
  find_path_def create_graph_def create_keys_def create_key_to_index_def add_neighbor_def
  is_path_clear_def neighbors_def py_index_def bellman_ford_def relax_edges_def relax_edge_def
  reconstruct_path_def reconstruct_loop.simps py_gt_def py_eq_def sqrt2_def round53_def
  float_of_int_def bitlen.simps Let_def enumerate_eq_zip upt_rec_numeral

lemma split_grid_unreachable:
  "find_path \<lparr>lidar_map = [[0, 1, 0]], car_length = 3 / 2, car_width = 1 / 2,
       starting_point = (0, 0), ending_point = (0, 2), path = []\<rparr> =
   Some (Inr ([], \<lparr>lidar_map = [[0, 1, 0]], car_length = 3 / 2, car_width = 1 / 2,
       starting_point = (0, 0), ending_point = (0, 2), path = []\<rparr>))"
  by (simp add: planner_eval)

theorem find_path_empty_keeps_path_witness:
  "RoadFinder_init (Some [[0, 1, 0]]) (0, 0) (0, 2) (3 / 2) (1 / 2) =
     Inr \<lparr>lidar_map = [[0, 1, 0]], car_length = 3 / 2, car_width = 1 / 2,
       starting_point = (0, 0), ending_point = (0, 2), path = []\<rparr> \<and>
   find_path \<lparr>lidar_map = [[0, 1, 0]], car_length = 3 / 2, car_width = 1 / 2,
       starting_point = (0, 0), ending_point = (0, 2), path = []\<rparr> =
     Some (Inr ([], \<lparr>lidar_map = [[0, 1, 0]], car_length = 3 / 2, car_width = 1 / 2,
       starting_point = (0, 0), ending_point = (0, 2), path = []\<rparr>)) \<and>
   repr \<lparr>lidar_map = [[0, 1, 0]], car_length = 3 / 2, car_width = 1 / 2,
       starting_point = (0, 0), ending_point = (0, 2), path = []\<rparr> = ''[]''"
  using find_path_empty_keeps_path[OF split_grid_unreachable]
  by (simp add: split_grid_unreachable RoadFinder_init_def)

text \<open>A planner as \<^verbatim>\<open>RoadFinder(LidarMap(m), start, end)\<close> builds it.\<close>

definition planner :: "grid \<Rightarrow> cell \<Rightarrow> cell \<Rightarrow> road_finder" where
  "planner m start end' =
     \<lparr>lidar_map = m, car_length = 3 / 2, car_width = 1 / 2,
      starting_point = start, ending_point = end', path = []\<rparr>"

lemma planner_init: "RoadFinder_init (Some m) start end' (3 / 2) (1 / 2) = Inr (planner m start end')"
  by (simp add: RoadFinder_init_def planner_def)

lemma scenario_A:
  "find_path (planner [[0, 0, 0, 0], [0, 1, 1, 0], [0, 0, 0, 0]] (0, 0) (2, 3)) =
   Some (Inr ([(0, 0), (0, 1), (0, 2), (1, 3), (2, 3)],
     (planner [[0, 0, 0, 0], [0, 1, 1, 0], [0, 0, 0, 0]] (0, 0) (2, 3))
       \<lparr>path := [(0, 0), (0, 1), (0, 2), (1, 3), (2, 3)]\<rparr>))"
  by (simp add: planner_eval planner_def)

lemma scenario_B:
  "find_path (planner [[0, 0, 0], [0, 1, 1], [0, 0, 0]] (0, 0) (2, 2)) =
   Some (Inr ([(0, 0), (1, 0), (2, 1), (2, 2)],
     (planner [[0, 0, 0], [0, 1, 1], [0, 0, 0]] (0, 0) (2, 2))
       \<lparr>path := [(0, 0), (1, 0), (2, 1), (2, 2)]\<rparr>))"
  by (simp add: planner_eval planner_def)

lemma scenario_C:
  "find_path (planner [[0, 1, 0], [0, 0, 0], [0, 0, 0]] (0, 0) (2, 2)) =
   Some (Inr ([(0, 0), (1, 1), (2, 2)],
     (planner [[0, 1, 0], [0, 0, 0], [0, 0, 0]] (0, 0) (2, 2))
       \<lparr>path := [(0, 0), (1, 1), (2, 2)]\<rparr>))"
  by (simp add: planner_eval planner_def)

text \<open>
  C1. The three scenarios of the specification, on planners built as the test harness
  builds them: \<^verbatim>\<open>find_path\<close> returns the listed path (and stores it in the planner).
\<close>

theorem find_path_scenarios:
  "find_path (planner [[0, 0, 0, 0], [0, 1, 1, 0], [0, 0, 0, 0]] (0, 0) (2, 3)) =
     Some (Inr ([(0, 0), (0, 1), (0, 2), (1, 3), (2, 3)],
       (planner [[0, 0, 0, 0], [0, 1, 1, 0], [0, 0, 0, 0]] (0, 0) (2, 3))
         \<lparr>path := [(0, 0), (0, 1), (0, 2), (1, 3), (2, 3)]\<rparr>)) \<and>
   find_path (planner [[0, 0, 0], [0, 1, 1], [0, 0, 0]] (0, 0) (2, 2)) =
     Some (Inr ([(0, 0), (1, 0), (2, 1), (2, 2)],
       (planner [[0, 0, 0], [0, 1, 1], [0, 0, 0]] (0, 0) (2, 2))
         \<lparr>path := [(0, 0), (1, 0), (2, 1), (2, 2)]\<rparr>)) \<and>
   find_path (planner [[0, 1, 0], [0, 0, 0], [0, 0, 0]] (0, 0) (2, 2)) =
     Some (Inr ([(0, 0), (1, 1), (2, 2)],
       (planner [[0, 1, 0], [0, 0, 0], [0, 0, 0]] (0, 0) (2, 2))
         \<lparr>path := [(0, 0), (1, 1), (2, 2)]\<rparr>))"
  using scenario_A scenario_B scenario_C by (intro conjI)

section \<open>Relaxation: what holds without any bound on the grid\<close>

definition is_weight :: "pynum \<Rightarrow> bool" where
  "is_weight w = (w = PInt 1 \<or> w = sqrt2)"

definition nonneg :: "pynum \<Rightarrow> bool" where
  "nonneg d = (case units d of None \<Rightarrow> True | Some x \<Rightarrow> 0 \<le> x)"

definition finite_dist :: "pynum \<Rightarrow> bool" where
  "finite_dist d = (units d \<noteq> None)"

definition edge :: "nat list list \<Rightarrow> nat \<Rightarrow> nat \<Rightarrow> bool" where
  "edge G u v = (u < length G \<and> v \<in> set (G ! u))"

definition wf_graph :: "nat list list \<Rightarrow> edge_weights \<Rightarrow> bool" where
  "wf_graph G ew = (\<forall>u v. edge G u v \<longrightarrow> v < length G \<and> (\<exists>w. ew (u, v) = Some w \<and> is_weight w))"

lemma round53_nonneg: "0 \<le> s \<Longrightarrow> 0 \<le> round53 s"
  by (auto simp: round53_def Let_def pos_imp_zdiv_nonneg_iff)

lemma float_of_int_nonneg: "0 \<le> a \<Longrightarrow> 0 \<le> float_of_int a"
  by (simp add: float_of_int_def round53_nonneg)

lemma float_of_int_1: "float_of_int 1 = 2 ^ 52"
  by (simp add: float_of_int_def round53_def bitlen.simps Let_def)

lemma py_add_nonneg:
  assumes "nonneg d" "is_weight w"
  shows "nonneg (py_add d w)"
  using assms
  by (cases d) (auto simp: nonneg_def is_weight_def sqrt2_def float_of_int_1
      intro!: round53_nonneg float_of_int_nonneg add_nonneg_nonneg)

lemma py_add_finite:
  assumes "is_weight w"
  shows "finite_dist (py_add d w) \<longleftrightarrow> finite_dist d"
  using assms by (cases d) (auto simp: finite_dist_def is_weight_def sqrt2_def)

lemma py_gt_finite: "py_gt a b \<Longrightarrow> finite_dist b"
  by (auto simp: py_gt_def finite_dist_def split: option.splits)

lemma not_gt_zero: "nonneg x \<Longrightarrow> \<not> py_gt (PInt 0) x"
  by (auto simp: py_gt_def nonneg_def split: option.splits)

lemma py_eq_inf: "py_eq d PInf \<longleftrightarrow> \<not> finite_dist d"
  by (auto simp: py_eq_def finite_dist_def)

lemma fold_err_inv:
  assumes "P s" and "\<And>x s. x \<in> set xs \<Longrightarrow> P s \<Longrightarrow> \<exists>s'. f x s = Inr s' \<and> P s'"
  shows "\<exists>s'. fold_err f xs s = Inr s' \<and> P s'"
  using assms
proof (induction xs arbitrary: s)
  case Nil
  then show ?case by simp
next
  case (Cons x xs)
  from Cons.prems(2)[of x s] Cons.prems(1) obtain s1 where s1: "f x s = Inr s1" "P s1" by auto
  from Cons.IH[OF s1(2)] Cons.prems(2) obtain s' where "fold_err f xs s1 = Inr s'" "P s'"
    by auto
  with s1 show ?case by simp
qed

text \<open>The state of the relaxation: the lists \<^verbatim>\<open>distances\<close> and \<^verbatim>\<open>predecessor\<close>.\<close>

definition inv_base :: "nat list list \<Rightarrow> nat \<Rightarrow> pynum list \<times> int list \<Rightarrow> bool" where
  "inv_base G s st =
     (case st of (d, p) \<Rightarrow>
        length d = length G \<and> length p = length G \<and> s < length G \<and> d ! s = PInt 0 \<and>
        (\<forall>v < length G. nonneg (d ! v)) \<and>
        (\<forall>v < length G. finite_dist (d ! v) \<longrightarrow> (edge G)\<^sup>*\<^sup>* s v))"

lemma relax_edge_base:
  assumes wf: "wf_graph G ew" and e: "edge G u v" and inv: "inv_base G s st"
  shows "\<exists>st'. relax_edge ew u v st = Inr st' \<and> inv_base G s st'"
proof -
  obtain d p where st: "st = (d, p)" by (cases st)
  from wf e obtain w where v: "v < length G" and w: "ew (u, v) = Some w" "is_weight w"
    by (auto simp: wf_graph_def)
  from e have u: "u < length G" by (simp add: edge_def)
  from inv have len: "length d = length G" "length p = length G" and s: "s < length G" "d ! s = PInt 0"
    and nn: "\<And>x. x < length G \<Longrightarrow> nonneg (d ! x)"
    and re: "\<And>x. x < length G \<Longrightarrow> finite_dist (d ! x) \<Longrightarrow> (edge G)\<^sup>*\<^sup>* s x"
    by (auto simp: inv_base_def st)
  let ?nd = "py_add (d ! u) w"
  show ?thesis
  proof (cases "py_gt (d ! v) ?nd")
    case False
    then have "relax_edge ew u v st = Inr st"
      using w u v len by (simp add: relax_edge_def st)
    with inv show ?thesis by blast
  next
    case True
    have step: "relax_edge ew u v st = Inr (d[v := ?nd], p[v := int u])"
      using True w u v len by (simp add: relax_edge_def st)
    have nnd: "nonneg ?nd" using nn[OF u] w(2) by (rule py_add_nonneg)
    have "v \<noteq> s"
    proof
      assume "v = s"
      with True s have "py_gt (PInt 0) ?nd" by simp
      with nnd show False by (simp add: not_gt_zero)
    qed
    from True have "finite_dist ?nd" by (rule py_gt_finite)
    then have "finite_dist (d ! u)" using w(2) by (simp add: py_add_finite)
    then have "(edge G)\<^sup>*\<^sup>* s u" using re u by blast
    then have rv: "(edge G)\<^sup>*\<^sup>* s v" using e by (rule rtranclp.rtrancl_into_rtrancl)
    have "inv_base G s (d[v := ?nd], p[v := int u])"
      unfolding inv_base_def using len s \<open>v \<noteq> s\<close> nn nnd re rv v
      by (auto simp: nth_list_update)
    with step show ?thesis by blast
  qed
qed

definition edge_list :: "nat list list \<Rightarrow> (nat \<times> nat) list" where
  "edge_list G = concat (map (\<lambda>u. map (\<lambda>v. (u, v)) (G ! u)) [0..<length G])"

lemma relax_pass_base:
  assumes wf: "wf_graph G ew" and inv: "inv_base G s st"
  shows "\<exists>st'. fold_err (\<lambda>u. fold_err (relax_edge ew u) (G ! u)) [0..<length G] st = Inr st' \<and>
           inv_base G s st'"
proof (rule fold_err_inv[where P = "inv_base G s"])
  show "inv_base G s st" by (rule inv)
next
  fix u st1 assume u: "u \<in> set [0..<length G]" and i1: "inv_base G s st1"
  show "\<exists>s'. fold_err (relax_edge ew u) (G ! u) st1 = Inr s' \<and> inv_base G s s'"
  proof (rule fold_err_inv[where P = "inv_base G s"])
    show "inv_base G s st1" by (rule i1)
  next
    fix v st2 assume "v \<in> set (G ! u)" and i2: "inv_base G s st2"
    with u have "edge G u v" by (simp add: edge_def)
    from relax_edge_base[OF wf this i2]
    show "\<exists>s'. relax_edge ew u v st2 = Inr s' \<and> inv_base G s s'" .
  qed
qed

lemma relax_edges_base:
  assumes wf: "wf_graph G ew" and inv: "inv_base G s (d, p)"
  shows "\<exists>st'. relax_edges G ew d p = Inr st' \<and> inv_base G s st'"
  unfolding relax_edges_def Let_def
proof (rule fold_err_inv[where P = "inv_base G s"])
  show "inv_base G s (d, p)" by (rule inv)
next
  fix k st1 assume "inv_base G s st1"
  from relax_pass_base[OF wf this]
  show "\<exists>s'. fold_err (\<lambda>u. fold_err (relax_edge ew u) (G ! u)) [0..<length G] st1 = Inr s' \<and>
           inv_base G s s'" .
qed

lemma inv_base_init:
  assumes "s < length G"
  shows "inv_base G s ((replicate (length G) PInf)[s := PInt 0], replicate (length G) (- 1))"
  using assms
  by (auto simp: inv_base_def nth_list_update nonneg_def finite_dist_def)

lemma is_weight_edge_weight: "is_weight (edge_weight dx dy)"
  by (simp add: is_weight_def edge_weight_def)

lemma create_graph_wf:
  assumes cg: "create_graph m = Inr (G, keys, ew)"
  shows "wf_graph G ew"
  unfolding wf_graph_def
proof (intro allI impI)
  fix u v assume e: "edge G u v"
  have len: "length G = length keys" using cg by (rule graph_edge_cells)
  from e have u: "u < length keys" and mem: "v \<in> set (G ! u)" by (simp_all add: edge_def len)
  let ?l = "all_out_edges m keys (keys ! u)"
  from mem graph_edge_cells(4)[OF cg u] have "v \<in> fst ` set (rev ?l)" by simp
  then obtain w where w: "map_of (rev ?l) v = Some w"
    by (metis map_of_eq_None_iff not_Some_eq)
  then have ew: "ew (u, v) = Some w"
    using graph_edge_cells(5)[OF cg, of u v] u by simp
  from ew_edge[OF cg ew] have "v < length keys" "is_weight w"
    by (simp_all add: is_weight_edge_weight)
  with ew len show "v < length G \<and> (\<exists>w. ew (u, v) = Some w \<and> is_weight w)" by simp
qed

lemma keys_free:
  assumes cg: "create_graph m = Inr (G, keys, ew)" and "u < length keys"
  shows "is_free m (keys ! u)"
proof -
  have "keys = create_keys m" using cg by (rule graph_edge_cells)
  with assms(2) have "keys ! u \<in> set (create_keys m)" by simp
  then show ?thesis by (simp add: set_create_keys)
qed

lemma edge_move:
  assumes cg: "create_graph m = Inr (G, keys, ew)" and e: "edge G u v"
  shows "move m (keys ! u) (keys ! v) \<and> v < length keys"
proof -
  have len: "length G = length keys" using cg by (rule graph_edge_cells)
  from e have u: "u < length keys" and mem: "v \<in> set (G ! u)" by (simp_all add: edge_def len)
  from mem obtain c where c: "neighbor8 (keys ! u) c" "is_free m c" "list_index keys c = Some v"
    unfolding graph_edge_iff_index[OF cg u] by blast
  from list_index_Some[OF c(3)] have "v < length keys" "keys ! v = c" by simp_all
  with c keys_free[OF cg u] show ?thesis by (simp add: move_def)
qed

lemma graph_reach_grid:
  assumes cg: "create_graph m = Inr (G, keys, ew)" and r: "(edge G)\<^sup>*\<^sup>* a b"
  shows "reachable m (keys ! a) (keys ! b)"
  using r
proof (induction rule: rtranclp_induct)
  case base
  then show ?case by (simp add: reachable_def)
next
  case (step y z)
  from edge_move[OF cg step.hyps(2)] have "move m (keys ! y) (keys ! z)" by simp
  with step.IH show ?case unfolding reachable_def by (rule rtranclp.rtrancl_into_rtrancl)
qed

lemma keys_index:
  assumes "c \<in> set keys"
  obtains i where "list_index keys c = Some i" "i < length keys" "keys ! i = c"
proof -
  from assms obtain i where i: "list_index keys c = Some i"
    using list_index_None[of keys c] by (cases "list_index keys c") auto
  from list_index_Some[OF i] i that show ?thesis by blast
qed

text \<open>The run of \<^verbatim>\<open>__bellman_ford\<close> up to the test of the distance of the end.\<close>

lemma bellman_ford_relaxed:
  assumes cg: "create_graph m = Inr (G, keys, ew)"
    and si: "list_index keys (starting_point self) = Some si"
    and ei: "list_index keys (ending_point self) = Some ei"
  obtains d p where "relax_edges G ew ((replicate (length G) PInf)[si := PInt 0])
        (replicate (length G) (- 1)) = Inr (d, p)"
    and "inv_base G si (d, p)"
    and "bellman_ford self G keys ew =
      (if \<not> finite_dist (d ! ei) then Some (Inr ([], self))
       else case reconstruct_path p si ei of
              None \<Rightarrow> None
            | Some (Inl e) \<Rightarrow> Some (Inl e)
            | Some (Inr path_indices) \<Rightarrow>
                if path_indices = [] then Some (Inr ([], self))
                else (case map_err (py_index keys) path_indices of
                        Inl e \<Rightarrow> Some (Inl e)
                      | Inr q \<Rightarrow> Some (Inr (q, self\<lparr>path := q\<rparr>))))"
proof -
  have len: "length G = length keys" using cg by (rule graph_edge_cells)
  from list_index_Some[OF si] list_index_Some[OF ei]
  have b: "si < length G" "ei < length G" and k: "keys ! si = starting_point self"
    "keys ! ei = ending_point self" by (simp_all add: len)
  then have mem: "starting_point self \<in> set keys" "ending_point self \<in> set keys"
    using len by (metis nth_mem)+
  from relax_edges_base[OF create_graph_wf[OF cg] inv_base_init[OF b(1)]]
  obtain d p where r: "relax_edges G ew ((replicate (length G) PInf)[si := PInt 0])
        (replicate (length G) (- 1)) = Inr (d, p)" and i: "inv_base G si (d, p)"
    by (metis surj_pair)
  have "bellman_ford self G keys ew =
      (if \<not> finite_dist (d ! ei) then Some (Inr ([], self))
       else case reconstruct_path p si ei of
              None \<Rightarrow> None
            | Some (Inl e) \<Rightarrow> Some (Inl e)
            | Some (Inr path_indices) \<Rightarrow>
                if path_indices = [] then Some (Inr ([], self))
                else (case map_err (py_index keys) path_indices of
                        Inl e \<Rightarrow> Some (Inl e)
                      | Inr q \<Rightarrow> Some (Inr (q, self\<lparr>path := q\<rparr>))))"
    using mem si ei b r by (simp add: bellman_ford_def Let_def py_eq_inf)
  with r i that show ?thesis by blast
qed

lemma find_path_graph:
  "create_graph (lidar_map self) = Inr (G, keys, ew) \<Longrightarrow>
   find_path self = bellman_ford self G keys ew"
  by (simp add: find_path_def)

lemma free_graph:
  assumes "is_free m c"
  obtains G ew where "create_graph m = Inr (G, create_keys m, ew)"
proof -
  from assms have "create_keys m \<noteq> []"
    unfolding create_keys_empty_iff by (cases c) auto
  from create_graph_eq[OF this] that show ?thesis by blast
qed

text \<open>
  C7. A request whose start is a free cell of the grid and whose end equals the start:
  \<^verbatim>\<open>find_path\<close> returns the one-element list of the start (and stores it).
\<close>

theorem find_path_start_is_end:
  assumes "is_free (lidar_map self) (starting_point self)"
    and "ending_point self = starting_point self"
  shows "find_path self = Some (Inr ([starting_point self], self\<lparr>path := [starting_point self]\<rparr>))"
proof -
  let ?m = "lidar_map self"
  from assms(1) obtain G ew where cg: "create_graph ?m = Inr (G, create_keys ?m, ew)"
    by (rule free_graph)
  from assms(1) have "starting_point self \<in> set (create_keys ?m)" by (simp add: set_create_keys)
  then obtain si where si: "list_index (create_keys ?m) (starting_point self) = Some si"
    "si < length (create_keys ?m)" "create_keys ?m ! si = starting_point self"
    by (rule keys_index)
  from si(1) assms(2) have ei: "list_index (create_keys ?m) (ending_point self) = Some si" by simp
  from bellman_ford_relaxed[OF cg si(1) ei] obtain d p where
    inv: "inv_base G si (d, p)" and
    bf: "bellman_ford self G (create_keys ?m) ew =
      (if \<not> finite_dist (d ! si) then Some (Inr ([], self))
       else case reconstruct_path p si si of
              None \<Rightarrow> None
            | Some (Inl e) \<Rightarrow> Some (Inl e)
            | Some (Inr path_indices) \<Rightarrow>
                if path_indices = [] then Some (Inr ([], self))
                else (case map_err (py_index (create_keys ?m)) path_indices of
                        Inl e \<Rightarrow> Some (Inl e)
                      | Inr q \<Rightarrow> Some (Inr (q, self\<lparr>path := q\<rparr>))))"
    by blast
  from inv have "d ! si = PInt 0" by (simp add: inv_base_def)
  then have fin: "finite_dist (d ! si)" by (simp add: finite_dist_def)
  have rp: "reconstruct_path p si si = Some (Inr [int si])"
    by (simp add: reconstruct_path_def reconstruct_loop.simps)
  have me: "py_index (create_keys ?m) (int si) = Inr (starting_point self)"
    using si(2,3) by (simp add: py_index_def)
  show ?thesis
    unfolding find_path_graph[OF cg] bf using fin by (simp add: rp me)
qed

theorem find_path_start_is_end_witness:
  "is_free [[0, 1], [1, 0]] (1, 1) \<and>
   find_path \<lparr>lidar_map = [[0, 1], [1, 0]], car_length = 3 / 2, car_width = 1 / 2,
       starting_point = (1, 1), ending_point = (1, 1), path = []\<rparr> =
   Some (Inr ([(1, 1)], \<lparr>lidar_map = [[0, 1], [1, 0]], car_length = 3 / 2, car_width = 1 / 2,
       starting_point = (1, 1), ending_point = (1, 1), path = [(1, 1)]\<rparr>))"
proof -
  let ?self = "\<lparr>lidar_map = [[0, 1], [1, 0]], car_length = 3 / 2, car_width = 1 / 2,
       starting_point = (1, 1), ending_point = (1, 1), path = []\<rparr>"
  have h1: "is_free (lidar_map ?self) (starting_point ?self)" by (simp add: is_free_def)
  have h2: "ending_point ?self = starting_point ?self" by simp
  from find_path_start_is_end[OF h1 h2] h1 show ?thesis by simp
qed

text \<open>
  C3. A request whose start and end are free cells, the end not reachable from the start by
  moves between free 8-neighbours: \<^verbatim>\<open>find_path\<close> raises nothing, returns the empty list
  and leaves the planner as it was.
\<close>

theorem find_path_unreachable:
  assumes "is_free (lidar_map self) (starting_point self)"
    and "is_free (lidar_map self) (ending_point self)"
    and "\<not> reachable (lidar_map self) (starting_point self) (ending_point self)"
  shows "find_path self = Some (Inr ([], self))"
proof -
  let ?m = "lidar_map self"
  from assms(1) obtain G ew where cg: "create_graph ?m = Inr (G, create_keys ?m, ew)"
    by (rule free_graph)
  from assms(1) have "starting_point self \<in> set (create_keys ?m)" by (simp add: set_create_keys)
  then obtain si where si: "list_index (create_keys ?m) (starting_point self) = Some si"
    "si < length (create_keys ?m)" "create_keys ?m ! si = starting_point self"
    by (rule keys_index)
  from assms(2) have "ending_point self \<in> set (create_keys ?m)" by (simp add: set_create_keys)
  then obtain ei where ei: "list_index (create_keys ?m) (ending_point self) = Some ei"
    "ei < length (create_keys ?m)" "create_keys ?m ! ei = ending_point self"
    by (rule keys_index)
  from bellman_ford_relaxed[OF cg si(1) ei(1)] obtain d p where
    inv: "inv_base G si (d, p)" and
    bf: "bellman_ford self G (create_keys ?m) ew =
      (if \<not> finite_dist (d ! ei) then Some (Inr ([], self))
       else case reconstruct_path p si ei of
              None \<Rightarrow> None
            | Some (Inl e) \<Rightarrow> Some (Inl e)
            | Some (Inr path_indices) \<Rightarrow>
                if path_indices = [] then Some (Inr ([], self))
                else (case map_err (py_index (create_keys ?m)) path_indices of
                        Inl e \<Rightarrow> Some (Inl e)
                      | Inr q \<Rightarrow> Some (Inr (q, self\<lparr>path := q\<rparr>))))"
    by blast
  have len: "length G = length (create_keys ?m)" using cg by (rule graph_edge_cells)
  have "\<not> finite_dist (d ! ei)"
  proof
    assume "finite_dist (d ! ei)"
    with inv ei(2) len have "(edge G)\<^sup>*\<^sup>* si ei" by (simp add: inv_base_def)
    from graph_reach_grid[OF cg this] assms(3) si(3) ei(3) show False by simp
  qed
  then show ?thesis unfolding find_path_graph[OF cg] bf by simp
qed

lemma wall_grid_free: "is_free [[0, 1, 0]] c \<longleftrightarrow> c = (0, 0) \<or> c = (0, 2)"
proof -
  have "set (create_keys [[0, 1, 0]]) = {(0, 0), (0, 2)}"
    by (simp add: create_keys_def enumerate_eq_zip upt_rec_numeral)
  then show ?thesis unfolding set_create_keys by auto
qed

lemma wall_grid_unreachable: "\<not> reachable [[0, 1, 0]] (0, 0) (0, 2)"
proof
  assume "reachable [[0, 1, 0]] (0, 0) (0, 2)"
  then have "(move [[0, 1, 0]])\<^sup>*\<^sup>* (0, 0) (0, 2)" by (simp add: reachable_def)
  then have "(0, 2) = (0 :: int, 0 :: int)"
  proof (induction rule: rtranclp_induct)
    case base
    then show ?case by simp
  next
    case (step y z)
    then show ?case by (auto simp: move_def wall_grid_free neighbor8_def)
  qed
  then show False by simp
qed

theorem find_path_unreachable_witness:
  "is_free [[0, 1, 0]] (0, 0) \<and> is_free [[0, 1, 0]] (0, 2) \<and>
   \<not> reachable [[0, 1, 0]] (0, 0) (0, 2) \<and>
   find_path \<lparr>lidar_map = [[0, 1, 0]], car_length = 3 / 2, car_width = 1 / 2,
       starting_point = (0, 0), ending_point = (0, 2), path = []\<rparr> =
   Some (Inr ([], \<lparr>lidar_map = [[0, 1, 0]], car_length = 3 / 2, car_width = 1 / 2,
       starting_point = (0, 0), ending_point = (0, 2), path = []\<rparr>))"
proof -
  let ?self = "\<lparr>lidar_map = [[0, 1, 0]], car_length = 3 / 2, car_width = 1 / 2,
       starting_point = (0, 0), ending_point = (0, 2), path = []\<rparr>"
  have h1: "is_free (lidar_map ?self) (starting_point ?self)" by (simp add: wall_grid_free)
  have h2: "is_free (lidar_map ?self) (ending_point ?self)" by (simp add: wall_grid_free)
  have h3: "\<not> reachable (lidar_map ?self) (starting_point ?self) (ending_point ?self)"
    using wall_grid_unreachable by simp
  from find_path_unreachable[OF h1 h2 h3] h1 h2 h3 show ?thesis by simp
qed

end
